theory Spec2Isabelle
  imports Main "HOL-Library.Sublist"
begin

section \<open>Python strings\<close>

text \<open>
  A Python \<open>str\<close> is a sequence of Unicode code points, and \<open>len\<close>, slicing and the
  \<open>re\<close> module all count code points. The candidate labels of \<open>normalize_table\<close> contain
  U+010D, which is no 8-bit character, so a string is modelled as a list of code
  points. \<open>py\<close> embeds an ASCII literal.

  What Python knows of a character it reads off the Unicode character database of
  the interpreter. \<open>py_isspace\<close> is the whole of Python's table of whitespace. The
  other tables (\<open>lower\<close>, the decimal digits of \<open>\d\<close> and \<open>int\<close>, the word characters of
  \<open>\w\<close>) are written out for the code points below U+0180 (Basic Latin, Latin-1
  Supplement, Latin Extended-A: every letter of Croatian); from U+0180 on they are
  no part of the repository and come in as the parameter \<open>U\<close>, of which nothing is
  assumed: the value of a decimal digit, \<open>s.lower()\<close> of a string that holds a
  character from U+0180 on (lowering is not character by character there: a final
  sigma depends on its place), and whether a character is alphanumeric.
\<close>

type_synonym codepoint = nat
type_synonym pystr = "codepoint list"

record ucd =
  decimal :: "codepoint \<Rightarrow> nat option"
  lowered :: "pystr \<Rightarrow> pystr"
  alnum :: "codepoint \<Rightarrow> bool"

definition tabled :: "codepoint \<Rightarrow> bool" where
  "tabled c = (c < 384)"

definition py :: "string \<Rightarrow> pystr" where
  "py s = map of_char s"

definition lit :: "char \<Rightarrow> codepoint \<Rightarrow> bool" where
  "lit ch c = (c = of_char ch)"

definition py_isspace :: "codepoint \<Rightarrow> bool" where
  "py_isspace c =
     ((9 \<le> c \<and> c \<le> 13) \<or> (28 \<le> c \<and> c \<le> 32) \<or> c = 133 \<or> c = 160 \<or> c = 5760
      \<or> (8192 \<le> c \<and> c \<le> 8202) \<or> c = 8232 \<or> c = 8233 \<or> c = 8239 \<or> c = 8287
      \<or> c = 12288)"

text \<open>\<open>s.strip()\<close>: leading and trailing whitespace removed.\<close>

definition py_strip :: "pystr \<Rightarrow> pystr" where
  "py_strip s = rev (dropWhile py_isspace (rev (dropWhile py_isspace s)))"

text \<open>
  \<open>s.lower()\<close>. Below U+0180 it goes character by character: U+0130 lowers to two
  code points; in Latin Extended-A the capital is the even code point up to U+0137
  and from U+014A to U+0177, and the odd one from U+0139 to U+0148 and from U+0179 to
  U+017E.
\<close>

definition lower_char :: "codepoint \<Rightarrow> pystr" where
  "lower_char c =
     (if 65 \<le> c \<and> c \<le> 90 then [c + 32]
      else if 192 \<le> c \<and> c \<le> 222 \<and> c \<noteq> 215 then [c + 32]
      else if c = 304 then [105, 775]
      else if c = 376 then [255]
      else if (256 \<le> c \<and> c \<le> 311 \<or> 330 \<le> c \<and> c \<le> 375) \<and> even c then [c + 1]
      else if (313 \<le> c \<and> c \<le> 328 \<or> 377 \<le> c \<and> c \<le> 382) \<and> odd c then [c + 1]
      else [c])"

definition py_lower :: "ucd \<Rightarrow> pystr \<Rightarrow> pystr" where
  "py_lower U s = (if list_all tabled s then concat (map lower_char s) else lowered U s)"

text \<open>\<open>s.startswith(p)\<close>, \<open>s.endswith(p)\<close> and \<open>sub in s\<close>.\<close>

fun startswith :: "pystr \<Rightarrow> pystr \<Rightarrow> bool" where
  "startswith s [] = True"
| "startswith [] (p # ps) = False"
| "startswith (c # cs) (p # ps) = (c = p \<and> startswith cs ps)"

definition endswith :: "pystr \<Rightarrow> pystr \<Rightarrow> bool" where
  "endswith s p = startswith (rev s) (rev p)"

fun py_in :: "pystr \<Rightarrow> pystr \<Rightarrow> bool" where
  "py_in sub [] = (sub = [])"
| "py_in sub (c # cs) = (startswith (c # cs) sub \<or> py_in sub cs)"

text \<open>\<open>\d\<close>, which takes every decimal digit of Unicode, and \<open>int\<close> on a string of
  such digits.\<close>

definition is_digit :: "ucd \<Rightarrow> codepoint \<Rightarrow> bool" where
  "is_digit U c = (if tabled c then 48 \<le> c \<and> c \<le> 57 else decimal U c \<noteq> None)"

definition digit_value :: "ucd \<Rightarrow> codepoint \<Rightarrow> nat" where
  "digit_value U c =
     (if tabled c then c - 48 else (case decimal U c of Some v \<Rightarrow> v | None \<Rightarrow> 0))"

definition py_int :: "ucd \<Rightarrow> pystr \<Rightarrow> nat" where
  "py_int U s = foldl (\<lambda>n c. 10 * n + digit_value U c) 0 s"

section \<open>Exceptions\<close>

text \<open>
  The exceptions the pipeline can meet, by where they are raised:
  \<open>BadZipFile\<close> by \<open>zipfile.ZipFile\<close> on bytes that are no archive;
  \<open>ExcelFileError\<close> stands for whatever \<open>pd.ExcelFile\<close> raises on bytes that are no
  workbook; \<open>ValueError\<close> by \<open>datetime(y, mo, d)\<close> on an impossible date and by assigning a
  two-column frame to one column; \<open>TypeError\<close> by \<open>pd.to_numeric\<close> on a frame;
  \<open>KeyError\<close> by \<open>out["opis"]\<close> on a frame without that column.
\<close>

datatype py_error = BadZipFile | ExcelFileError | ValueError | TypeError | KeyError

section \<open>Regular expressions of the date patterns\<close>

text \<open>
  The three patterns of \<open>guess_date_from_filename\<close> are sequences of counted character
  classes, some inside one of three groups. \<open>Rep g P lo hi\<close> is the greedy item
  \<open>P{lo,hi}\<close> whose text belongs to group \<open>g\<close> (\<open>G0\<close>: to none).
\<close>

datatype grp = G0 | G1 | G2 | G3

datatype atom = Rep grp "codepoint \<Rightarrow> bool" nat nat

fun grp_of :: "atom \<Rightarrow> grp" where
  "grp_of (Rep g P lo hi) = g"

fun first_some :: "('a \<Rightarrow> 'b option) \<Rightarrow> 'a list \<Rightarrow> 'b option" where
  "first_some f [] = None"
| "first_some f (x # xs) = (case f x of Some y \<Rightarrow> Some y | None \<Rightarrow> first_some f xs)"

text \<open>
  Matching anchored at the head of the string, as the backtracking matcher of \<open>re\<close>
  does it: a greedy item takes the largest count first and gives characters back
  one at a time while the rest of the pattern fails. The result is the text taken
  by each item.
\<close>

fun match_here :: "atom list \<Rightarrow> pystr \<Rightarrow> pystr list option" where
  "match_here [] s = Some []"
| "match_here (Rep g P lo hi # as) s =
     first_some
       (\<lambda>k. if k \<le> length s \<and> list_all P (take k s)
            then map_option ((#) (take k s)) (match_here as (drop k s))
            else None)
       (rev [lo..<Suc hi])"

text \<open>\<open>re.search\<close>: the match at the leftmost position that has one.\<close>

fun re_search_items :: "atom list \<Rightarrow> pystr \<Rightarrow> pystr list option" where
  "re_search_items as [] = match_here as []"
| "re_search_items as (c # cs) =
     (case match_here as (c # cs) of
        Some ps \<Rightarrow> Some ps
      | None \<Rightarrow> re_search_items as cs)"

definition group :: "grp \<Rightarrow> atom list \<Rightarrow> pystr list \<Rightarrow> pystr" where
  "group g as ps = concat (map snd (filter (\<lambda>(a, p). grp_of a = g) (zip as ps)))"

text \<open>\<open>re.search(pattern, s)\<close> followed by \<open>m.groups()\<close>.\<close>

definition re_search :: "atom list \<Rightarrow> pystr \<Rightarrow> (pystr \<times> pystr \<times> pystr) option" where
  "re_search as s =
     map_option (\<lambda>ps. (group G1 as ps, group G2 as ps, group G3 as ps)) (re_search_items as s)"

definition is_sep :: "codepoint \<Rightarrow> bool" where
  "is_sep c = (lit CHR ''-'' c \<or> lit CHR ''_'' c \<or> lit CHR ''.'' c)"

text \<open>\<^verbatim>\<open>(20\d{2})[-_.](\d{1,2})[-_.](\d{1,2})\<close>\<close>

definition family1 :: "ucd \<Rightarrow> atom list" where
  "family1 U =
     [Rep G1 (lit CHR ''2'') 1 1, Rep G1 (lit CHR ''0'') 1 1, Rep G1 (is_digit U) 2 2,
      Rep G0 is_sep 1 1, Rep G2 (is_digit U) 1 2, Rep G0 is_sep 1 1, Rep G3 (is_digit U) 1 2]"

text \<open>\<^verbatim>\<open>(\d{1,2})[.](\d{1,2})[.](20\d{2})\<close>\<close>

definition family2 :: "ucd \<Rightarrow> atom list" where
  "family2 U =
     [Rep G1 (is_digit U) 1 2, Rep G0 (lit CHR ''.'') 1 1, Rep G2 (is_digit U) 1 2,
      Rep G0 (lit CHR ''.'') 1 1,
      Rep G3 (lit CHR ''2'') 1 1, Rep G3 (lit CHR ''0'') 1 1, Rep G3 (is_digit U) 2 2]"

text \<open>\<^verbatim>\<open>(20\d{2})(\d{2})(\d{2})\<close>\<close>

definition family3 :: "ucd \<Rightarrow> atom list" where
  "family3 U =
     [Rep G1 (lit CHR ''2'') 1 1, Rep G1 (lit CHR ''0'') 1 1, Rep G1 (is_digit U) 2 2,
      Rep G2 (is_digit U) 2 2, Rep G3 (is_digit U) 2 2]"

section \<open>Calendar dates\<close>

record date =
  year :: nat
  month :: nat
  day :: nat

definition is_leap :: "nat \<Rightarrow> bool" where
  "is_leap y = (y mod 4 = 0 \<and> (y mod 100 \<noteq> 0 \<or> y mod 400 = 0))"

definition days_in_month :: "nat \<Rightarrow> nat \<Rightarrow> nat" where
  "days_in_month y m =
     (if m = 2 then (if is_leap y then 29 else 28)
      else if m = 4 \<or> m = 6 \<or> m = 9 \<or> m = 11 then 30
      else 31)"

definition valid_date :: "nat \<Rightarrow> nat \<Rightarrow> nat \<Rightarrow> bool" where
  "valid_date y m d =
     (1 \<le> y \<and> y \<le> 9999 \<and> 1 \<le> m \<and> m \<le> 12 \<and> 1 \<le> d \<and> d \<le> days_in_month y m)"

text \<open>\<open>datetime(y, mo, d).date()\<close>: the constructor raises \<open>ValueError\<close> on an impossible date.\<close>

definition datetime_date :: "nat \<Rightarrow> nat \<Rightarrow> nat \<Rightarrow> py_error + date" where
  "datetime_date y m d =
     (if valid_date y m d then Inr \<lparr>year = y, month = m, day = d\<rparr> else Inl ValueError)"

section \<open>guess_date_from_filename\<close>

text \<open>
  The first pattern that matches decides: its groups go to \<open>datetime\<close>, and nothing
  catches the \<open>ValueError\<close> of an impossible date, so it reaches the caller. \<open>None\<close> is
  returned only when no pattern matches.
\<close>

definition some_date :: "py_error + date \<Rightarrow> py_error + date option" where
  "some_date r = (case r of Inl e \<Rightarrow> Inl e | Inr dt \<Rightarrow> Inr (Some dt))"

definition guess_date_from_filename :: "ucd \<Rightarrow> pystr \<Rightarrow> py_error + date option" where
  "guess_date_from_filename U name =
     (case re_search (family1 U) name of
        Some (y, mo, d) \<Rightarrow> some_date (datetime_date (py_int U y) (py_int U mo) (py_int U d))
      | None \<Rightarrow>
     (case re_search (family2 U) name of
        Some (d, mo, y) \<Rightarrow> some_date (datetime_date (py_int U y) (py_int U mo) (py_int U d))
      | None \<Rightarrow>
     (case re_search (family3 U) name of
        Some (y, mo, d) \<Rightarrow> some_date (datetime_date (py_int U y) (py_int U mo) (py_int U d))
      | None \<Rightarrow> Inr None)))"

section \<open>Tables, rows and frames\<close>

text \<open>
  A \<open>DataFrame\<close> read from a sheet: \<open>nrows\<close> is \<open>df.shape[0]\<close>, and \<open>cols\<close> holds, in
  sheet order, every column as the text \<open>str(c)\<close> of its label with its \<open>nrows\<close> cells.
  The type of a cell is left open; what pandas does with one cell comes in as two
  functions, \<open>astype_str\<close> (the cell under \<open>.astype(str)\<close>) and \<open>to_numeric\<close> (the cell
  under \<open>pd.to_numeric(..., errors="coerce")\<close>, \<open>None\<close> for NaN).
\<close>

record 'c table =
  nrows :: nat
  cols :: "(pystr \<times> 'c list) list"

record 'n row =
  opis :: pystr
  jm :: pystr
  kolicina :: "'n option"
  jed_cijena :: "'n option"
  iznos :: "'n option"
  source_file :: pystr
  sheet :: pystr
  datum :: "date option"


text \<open>
  A frame the pipeline builds: \<open>NoColumns\<close> is \<open>pd.DataFrame()\<close>, which has no column at
  all, and \<open>Frame rs\<close> has the columns of its rows, also when \<open>rs\<close> is empty.
\<close>

datatype 'r frame = NoColumns | Frame "'r list"

fun frame_rows :: "'r frame \<Rightarrow> 'r list" where
  "frame_rows NoColumns = []"
| "frame_rows (Frame rs) = rs"

text \<open>
  \<open>pd.concat(frames, ignore_index=True)\<close> on a list that is not empty: the rows in
  order, under the union of the columns.
\<close>

definition concat_frames :: "'r frame list \<Rightarrow> 'r frame" where
  "concat_frames fs =
     (if list_all (\<lambda>f. f = NoColumns) fs then NoColumns
      else Frame (concat (map frame_rows fs)))"

section \<open>normalize_table\<close>

text \<open>
  \<open>find_col\<close>: the first loop looks for a label equal to a candidate, the second for
  a label that contains one; both run over the candidates and, inside, over the columns.
\<close>

fun find_exact :: "ucd \<Rightarrow> pystr list \<Rightarrow> pystr list \<Rightarrow> pystr option" where
  "find_exact U columns [] = None"
| "find_exact U columns (opt # options) =
     (case List.find (\<lambda>c. py_lower U (py_strip c) = py_lower U opt) columns of
        Some c \<Rightarrow> Some c
      | None \<Rightarrow> find_exact U columns options)"

fun find_fuzzy :: "ucd \<Rightarrow> pystr list \<Rightarrow> pystr list \<Rightarrow> pystr option" where
  "find_fuzzy U columns [] = None"
| "find_fuzzy U columns (opt # options) =
     (case List.find (\<lambda>c. py_in (py_lower U opt) (py_lower U c)) columns of
        Some c \<Rightarrow> Some c
      | None \<Rightarrow> find_fuzzy U columns options)"

definition find_col :: "ucd \<Rightarrow> pystr list \<Rightarrow> pystr list \<Rightarrow> pystr option" where
  "find_col U columns options =
     (case find_exact U columns options of
        Some c \<Rightarrow> Some c
      | None \<Rightarrow> find_fuzzy U columns options)"

definition desc_options :: "pystr list" where
  "desc_options = [py ''Opis'', py ''Naziv'', py ''Stavka'', py ''Opis stavke'']"

definition unit_options :: "pystr list" where
  "unit_options =
     [py ''JM'', py ''J.M.'', py ''Jed mj'', py ''Jed. mjere'', py ''Mjerna jedinica'']"

definition qty_options :: "pystr list" where
  "qty_options = [py ''Koli'' @ [269] @ py ''ina'', py ''Kol'', py ''Qty'']"

definition up_options :: "pystr list" where
  "up_options =
     [py ''Jedini'' @ [269] @ py ''na cijena'', py ''Jed. cijena'', py ''Cijena'',
      py ''Unit price'']"

definition tot_options :: "pystr list" where
  "tot_options = [py ''Iznos'', py ''Ukupno'', py ''Vrijednost'', py ''Total'']"

text \<open>
  \<open>df[c]\<close> after the renaming. Stripping can give two columns one label; \<open>df[c]\<close> is
  then a frame and not a series, and the statement that uses it raises: the
  assignment of a two-column frame to one column \<open>ValueError\<close>, \<open>pd.to_numeric\<close>
  \<open>TypeError\<close>.
\<close>

definition series :: "(pystr \<times> 'c list) list \<Rightarrow> pystr \<Rightarrow> 'c list option" where
  "series df c =
     (case filter (\<lambda>(label, cells). label = c) df of
        [(label, cells)] \<Rightarrow> Some cells
      | _ \<Rightarrow> None)"

text \<open>One of the columns \<open>jm\<close>, \<open>kolicina\<close>, \<open>jed_cijena\<close>, \<open>iznos\<close>: the cells of the
  column found, converted, or the default in each of the \<open>n\<close> rows.\<close>

definition role_column ::
  "(pystr \<times> 'c list) list \<Rightarrow> pystr option \<Rightarrow> ('c \<Rightarrow> 'a) \<Rightarrow> 'a \<Rightarrow> py_error \<Rightarrow> nat
     \<Rightarrow> py_error + 'a list" where
  "role_column df found conv dflt err n =
     (case found of
        None \<Rightarrow> Inr (replicate n dflt)
      | Some c \<Rightarrow> (case series df c of None \<Rightarrow> Inl err | Some cells \<Rightarrow> Inr (map conv cells)))"

definition header_labels :: "pystr list" where
  "header_labels = [py ''opis'', py ''stavka'', py ''naziv'']"

definition normalize_table ::
  "ucd \<Rightarrow> ('c \<Rightarrow> pystr) \<Rightarrow> ('c \<Rightarrow> 'n option) \<Rightarrow> 'c table \<Rightarrow> pystr \<Rightarrow> pystr
     \<Rightarrow> py_error + 'n row frame" where
  "normalize_table U astype_str to_numeric df0 source sh =
     (let df = map (\<lambda>(c, cells). (py_strip c, cells)) (cols df0);
          columns = map fst df;
          c_desc = find_col U columns desc_options;
          c_unit = find_col U columns unit_options;
          c_qty = find_col U columns qty_options;
          c_up = find_col U columns up_options;
          c_tot = find_col U columns tot_options
      in case c_desc of
           None \<Rightarrow> Inr NoColumns
         | Some cd \<Rightarrow>
       (case series df cd of
           None \<Rightarrow> Inl ValueError
         | Some cells \<Rightarrow>
       (let o_opis = map astype_str cells; n = length o_opis
        in case role_column df c_unit astype_str [] ValueError n of
             Inl e \<Rightarrow> Inl e
           | Inr o_jm \<Rightarrow>
         (case role_column df c_qty to_numeric None TypeError n of
             Inl e \<Rightarrow> Inl e
           | Inr o_kolicina \<Rightarrow>
         (case role_column df c_up to_numeric None TypeError n of
             Inl e \<Rightarrow> Inl e
           | Inr o_jed_cijena \<Rightarrow>
         (case role_column df c_tot to_numeric None TypeError n of
             Inl e \<Rightarrow> Inl e
           | Inr o_iznos \<Rightarrow>
         (case guess_date_from_filename U source of
             Inl e \<Rightarrow> Inl e
           | Inr dat \<Rightarrow>
         (let out = map (\<lambda>(a, b, c, d, e).
                      \<lparr>opis = a, jm = b, kolicina = c, jed_cijena = d, iznos = e,
                       source_file = source, sheet = sh, datum = dat\<rparr>)
                    (zip o_opis (zip o_jm (zip o_kolicina (zip o_jed_cijena o_iznos))));
              out1 = filter (\<lambda>r. py_strip (opis r) \<noteq> []) out;
              out2 = filter (\<lambda>r. py_lower U (opis r) \<notin> set header_labels) out1
          in Inr (Frame out2)))))))))"

section \<open>read_xlsx_bytes\<close>

text \<open>
  The bytes of one archive entry are given by what pandas makes of them:
  \<open>NotWorkbook\<close> when \<open>pd.ExcelFile\<close> raises, else the sheets in the order of
  \<open>xls.sheet_names\<close>, each with what \<open>xls.parse(sh)\<close> does: raise or return a table.
\<close>

datatype 'c parsed = ParseFails | Parsed "'c table"

datatype 'c xlsx = NotWorkbook | Workbook "(pystr \<times> 'c parsed) list"

text \<open>The loop over the sheets; the result is the list \<open>frames\<close>.\<close>

fun read_sheets ::
  "ucd \<Rightarrow> ('c \<Rightarrow> pystr) \<Rightarrow> ('c \<Rightarrow> 'n option) \<Rightarrow> pystr \<Rightarrow> (pystr \<times> 'c parsed) list
     \<Rightarrow> 'n row frame list" where
  "read_sheets U astype_str to_numeric filename [] = []"
| "read_sheets U astype_str to_numeric filename ((sh, ParseFails) # rest) =
     read_sheets U astype_str to_numeric filename rest"
| "read_sheets U astype_str to_numeric filename ((sh, Parsed raw) # rest) =
     (if nrows raw < 3 then read_sheets U astype_str to_numeric filename rest
      else (case normalize_table U astype_str to_numeric raw filename sh of
              Inl e \<Rightarrow> read_sheets U astype_str to_numeric filename rest
            | Inr f \<Rightarrow> f # read_sheets U astype_str to_numeric filename rest))"

definition read_xlsx_bytes ::
  "ucd \<Rightarrow> ('c \<Rightarrow> pystr) \<Rightarrow> ('c \<Rightarrow> 'n option) \<Rightarrow> 'c xlsx \<Rightarrow> pystr \<Rightarrow> py_error + 'n row frame" where
  "read_xlsx_bytes U astype_str to_numeric xlsx_bytes filename =
     (case xlsx_bytes of
        NotWorkbook \<Rightarrow> Inl ExcelFileError
      | Workbook sheets \<Rightarrow>
          (let frames = read_sheets U astype_str to_numeric filename sheets
           in if frames \<noteq> [] then Inr (concat_frames frames) else Inr NoColumns))"

section \<open>ingest_zip\<close>

text \<open>
  The archive bytes are given by what \<open>zipfile\<close> makes of them: \<open>NotArchive\<close> when
  \<open>ZipFile\<close> raises, else the entries in the order of \<open>z.namelist()\<close>, each with the
  bytes \<open>z.read\<close> returns for it. \<open>z.read(name)\<close> gives the bytes of the last entry of
  that name.
\<close>

datatype 'c zip = NotArchive | Archive "(pystr \<times> 'c xlsx) list"

fun z_read :: "(pystr \<times> 'b) list \<Rightarrow> pystr \<Rightarrow> 'b option" where
  "z_read [] name = None"
| "z_read ((n, b) # entries) name =
     (case z_read entries name of
        Some b' \<Rightarrow> Some b'
      | None \<Rightarrow> if n = name then Some b else None)"








section \<open>What the specification speaks of\<close>

subsection \<open>A pattern occurring in a filename\<close>

text \<open>
  The declarative reading of the patterns, against which the matcher is verified. A
  text fits an item when its length is within the item's bounds and all its characters
  are of the item's class. The pattern occurs at position \<open>i\<close> of \<open>s\<close> with the texts
  \<open>ps\<close> when the texts fit the items one by one and \<open>s\<close> continues with them from \<open>i\<close> on.
\<close>

fun item_ok :: "atom \<Rightarrow> pystr \<Rightarrow> bool" where
  "item_ok (Rep g P lo hi) p = (lo \<le> length p \<and> length p \<le> hi \<and> list_all P p)"

definition occurs_at :: "atom list \<Rightarrow> pystr \<Rightarrow> nat \<Rightarrow> pystr list \<Rightarrow> bool" where
  "occurs_at as s i ps =
     (list_all2 item_ok as ps \<and> (\<exists>post. drop i s = concat ps @ post) \<and> i \<le> length s)"

definition occurs :: "atom list \<Rightarrow> pystr \<Rightarrow> bool" where
  "occurs as s = (\<exists>i ps. occurs_at as s i ps)"

text \<open>The lengths of the texts of one occurrence against another's, item by item
  from the left.\<close>

fun lex_le :: "nat list \<Rightarrow> nat list \<Rightarrow> bool" where
  "lex_le [] ys = True"
| "lex_le (x # xs) [] = False"
| "lex_le (x # xs) (y # ys) = (x < y \<or> (x = y \<and> lex_le xs ys))"

text \<open>
  The occurrence a search selects: the leftmost and, among those at its position, the
  one whose items take the most, the earlier item first.
\<close>

definition selects :: "atom list \<Rightarrow> pystr \<Rightarrow> pystr list \<Rightarrow> bool" where
  "selects as s ps =
     (\<exists>i. occurs_at as s i ps \<and>
        (\<forall>j qs. occurs_at as s j qs \<longrightarrow>
           i < j \<or> (i = j \<and> lex_le (map length qs) (map length ps))))"

text \<open>
  The family that decides a filename is the first of the three that occurs in it, with
  the occurrence selected; \<open>ymd\<close> reads the year, the month and the day off it.
\<close>

datatype family = Family1 | Family2 | Family3

fun pattern :: "ucd \<Rightarrow> family \<Rightarrow> atom list" where
  "pattern U Family1 = family1 U"
| "pattern U Family2 = family2 U"
| "pattern U Family3 = family3 U"

fun earlier_absent :: "ucd \<Rightarrow> family \<Rightarrow> pystr \<Rightarrow> bool" where
  "earlier_absent U Family1 name = True"
| "earlier_absent U Family2 name = (\<not> occurs (family1 U) name)"
| "earlier_absent U Family3 name = (\<not> occurs (family1 U) name \<and> \<not> occurs (family2 U) name)"

definition decides :: "ucd \<Rightarrow> family \<Rightarrow> pystr \<Rightarrow> pystr list \<Rightarrow> bool" where
  "decides U k name ps = (earlier_absent U k name \<and> selects (pattern U k) name ps)"

fun ymd :: "ucd \<Rightarrow> family \<Rightarrow> pystr list \<Rightarrow> nat \<times> nat \<times> nat" where
  "ymd U Family1 ps =
     (py_int U (group G1 (family1 U) ps), py_int U (group G2 (family1 U) ps),
      py_int U (group G3 (family1 U) ps))"
| "ymd U Family2 ps =
     (py_int U (group G3 (family2 U) ps), py_int U (group G2 (family2 U) ps),
      py_int U (group G1 (family2 U) ps))"
| "ymd U Family3 ps =
     (py_int U (group G1 (family3 U) ps), py_int U (group G2 (family3 U) ps),
      py_int U (group G3 (family3 U) ps))"

subsection \<open>Resolving a column role\<close>










subsection \<open>The sheets of a document\<close>


definition sheet_rows ::
  "ucd \<Rightarrow> ('c \<Rightarrow> pystr) \<Rightarrow> ('c \<Rightarrow> 'n option) \<Rightarrow> pystr \<Rightarrow> pystr \<times> 'c parsed \<Rightarrow> 'n row list" where
  "sheet_rows U astype_str to_numeric filename s =
     (case s of
        (sh, ParseFails) \<Rightarrow> []
      | (sh, Parsed raw) \<Rightarrow>
          if nrows raw < 3 then []
          else (case normalize_table U astype_str to_numeric raw filename sh of
                  Inl e \<Rightarrow> []
                | Inr f \<Rightarrow> frame_rows f))"


subsection \<open>The entries of an archive\<close>







section \<open>Sheets for the scenarios\<close>

text \<open>
  The scenarios hold no character from U+0180 on, so the parameter \<open>U\<close> is never
  consulted in them. They are evaluated under \<open>latin_only\<close>, the database that stops at
  U+0180.
\<close>

definition latin_only :: ucd where
  "latin_only = \<lparr>decimal = (\<lambda>c. None), lowered = (\<lambda>s. s), alnum = (\<lambda>c. False)\<rparr>"

text \<open>
  The scenarios are sheets of text cells. For a text cell \<open>.astype(str)\<close> is the text
  itself. \<open>text_to_numeric\<close> is \<open>pd.to_numeric\<close> with \<open>errors="coerce"\<close> on the two kinds
  of text the scenarios hold: an unsigned decimal integer is read as that number, and
  a label, which is no number in any notation, as NaN.
\<close>

definition text_to_numeric :: "pystr \<Rightarrow> int option" where
  "text_to_numeric s =
     (if s \<noteq> [] \<and> list_all (\<lambda>c. 48 \<le> c \<and> c \<le> 57) s
      then Some (int (foldl (\<lambda>n c. 10 * n + (c - 48)) 0 s)) else None)"

text \<open>The sheet of the scenario of claim C6: the header row becomes the labels, the
  data row and the repeated header row are the two rows of the table.\<close>

definition scenario_table :: "pystr table" where
  "scenario_table =
     \<lparr>nrows = 2,
      cols =
        [(py ''Naziv'', [py ''Beton'', py ''Naziv'']),
         (py ''J.M.'', [py ''m3'', py ''J.M.'']),
         (py ''Kol'', [py ''2'', py ''Kol'']),
         (py ''Cijena'', [py ''100'', py ''Cijena'']),
         (py ''Ukupno'', [py ''200'', py ''Ukupno''])]\<rparr>"

text \<open>A sheet of three rows whose first row repeats the header with a blank on each
  side of the label.\<close>

definition padded_table :: "pystr table" where
  "padded_table =
     \<lparr>nrows = 3,
      cols =
        [(py ''Opis'', [py '' Opis '', py ''Beton C25/30'', py ''Opeka'']),
         (py ''JM'', [py '' JM '', py ''m3'', py ''kom''])]\<rparr>"

section \<open>The matcher finds the selected occurrence\<close>


lemma first_some_None: "first_some f xs = None \<longleftrightarrow> (\<forall>x\<in>set xs. f x = None)"
  by (induction xs) (auto split: option.splits)

lemma counts_set: "k \<in> set (rev [lo..<Suc hi]) \<longleftrightarrow> lo \<le> k \<and> k \<le> hi"
  by auto

lemma first_some_desc:
  "first_some f (rev [lo..<Suc hi]) = Some y \<Longrightarrow>
     \<exists>k. lo \<le> k \<and> k \<le> hi \<and> f k = Some y \<and> (\<forall>k'. k < k' \<and> k' \<le> hi \<longrightarrow> f k' = None)"
proof (induction hi)
  case 0
  then show ?case by (cases lo) (auto split: option.splits if_splits)
next
  case (Suc hi)
  show ?case
  proof (cases "lo \<le> Suc hi")
    case False
    with Suc.prems show ?thesis by simp
  next
    case True
    show ?thesis
    proof (cases "f (Suc hi)")
      case (Some z)
      with True Suc.prems show ?thesis by auto
    next
      case None
      with True Suc.prems have "first_some f (rev [lo..<Suc hi]) = Some y" by simp
      from Suc.IH [OF this] obtain k where k: "lo \<le> k" "k \<le> hi" "f k = Some y"
        "\<forall>k'. k < k' \<and> k' \<le> hi \<longrightarrow> f k' = None" by blast
      have "\<forall>k'. k < k' \<and> k' \<le> Suc hi \<longrightarrow> f k' = None"
        using k(4) None by (auto simp: le_Suc_eq)
      with k show ?thesis by (intro exI [of _ k]) auto
    qed
  qed
qed

lemma match_here_sound:
  "match_here as s = Some ps \<Longrightarrow> list_all2 item_ok as ps \<and> (\<exists>post. s = concat ps @ post)"
proof (induction as arbitrary: s ps)
  case Nil
  then show ?case by simp
next
  case (Cons a as)
  obtain g P lo hi where a: "a = Rep g P lo hi" by (cases a)
  let ?f = "\<lambda>k. if k \<le> length s \<and> list_all P (take k s)
      then map_option ((#) (take k s)) (match_here as (drop k s)) else None"
  from Cons.prems have "first_some ?f (rev [lo..<Suc hi]) = Some ps" by (simp add: a)
  from first_some_desc [OF this] obtain k where k: "lo \<le> k \<and> k \<le> hi" "?f k = Some ps"
    by blast
  then obtain pt where pt: "k \<le> length s" "list_all P (take k s)"
    "match_here as (drop k s) = Some pt" "ps = take k s # pt"
    by (auto split: if_splits)
  from Cons.IH [OF pt(3)] obtain r where ih: "list_all2 item_ok as pt" "drop k s = concat pt @ r"
    by auto
  from ih(2) have "s = take k s @ concat pt @ r" by (metis append_take_drop_id)
  then have "\<exists>post. s = concat ps @ post" unfolding pt(4) by auto
  moreover have "item_ok a (take k s)" using k(1) pt(1,2) by (auto simp: a)
  ultimately show ?case using ih(1) pt(4) by simp
qed

lemma match_here_complete:
  "list_all2 item_ok as ps \<Longrightarrow> s = concat ps @ post \<Longrightarrow> match_here as s \<noteq> None"
proof (induction as ps arbitrary: s rule: list_all2_induct)
  case Nil
  then show ?case by simp
next
  case (Cons a as p ps)
  obtain g P lo hi where a: "a = Rep g P lo hi" by (cases a)
  from Cons.prems have s: "s = p @ concat ps @ post" by simp
  from Cons.hyps(1) have p: "lo \<le> length p" "length p \<le> hi" "list_all P p" by (auto simp: a)
  let ?f = "\<lambda>k. if k \<le> length s \<and> list_all P (take k s)
      then map_option ((#) (take k s)) (match_here as (drop k s)) else None"
  have "match_here as (drop (length p) s) \<noteq> None"
    by (rule Cons.IH) (simp add: s)
  then have nz: "?f (length p) \<noteq> None"
    using p by (simp add: s)
  have mem: "length p \<in> set (rev [lo..<Suc hi])" using p by (simp only: counts_set)
  have "first_some ?f (rev [lo..<Suc hi]) \<noteq> None"
  proof
    assume "first_some ?f (rev [lo..<Suc hi]) = None"
    then have "\<forall>k\<in>set (rev [lo..<Suc hi]). ?f k = None" by (simp only: first_some_None)
    from bspec [OF this mem] nz show False by contradiction
  qed
  then show ?case by (simp add: a)
qed

lemma match_here_greedy:
  "match_here as s = Some ps \<Longrightarrow> list_all2 item_ok as qs \<Longrightarrow> s = concat qs @ post \<Longrightarrow>
     lex_le (map length qs) (map length ps)"
proof (induction as arbitrary: s ps qs)
  case Nil
  then show ?case by simp
next
  case (Cons a as)
  obtain g P lo hi where a: "a = Rep g P lo hi" by (cases a)
  from Cons.prems(2) obtain q qt where qs: "qs = q # qt" "item_ok a q" "list_all2 item_ok as qt"
    by (auto simp: list_all2_Cons1)
  let ?f = "\<lambda>k. if k \<le> length s \<and> list_all P (take k s)
      then map_option ((#) (take k s)) (match_here as (drop k s)) else None"
  from Cons.prems(1) have "first_some ?f (rev [lo..<Suc hi]) = Some ps" by (simp add: a)
  from first_some_desc [OF this] obtain k where k: "lo \<le> k" "k \<le> hi" "?f k = Some ps"
    "\<forall>k'. k < k' \<and> k' \<le> hi \<longrightarrow> ?f k' = None" by blast
  from k(3) obtain pt where pt: "k \<le> length s" "match_here as (drop k s) = Some pt"
    "ps = take k s # pt" by (auto split: if_splits)
  from Cons.prems(3) have s: "s = q @ concat qt @ post" by (simp add: qs)
  from qs(2) have q: "lo \<le> length q" "length q \<le> hi" "list_all P q" by (auto simp: a)
  have tl: "drop (length q) s = concat qt @ post" by (simp add: s)
  from match_here_complete [OF qs(3) tl] have nz: "?f (length q) \<noteq> None"
    using q by (simp add: s)
  have le: "length q \<le> k"
  proof (rule ccontr)
    assume "\<not> length q \<le> k"
    with q(2) have "k < length q \<and> length q \<le> hi" by simp
    with k(4) [rule_format, of "length q"] have "?f (length q) = None" .
    with nz show False by contradiction
  qed
  show ?case
  proof (cases "length q = k")
    case True
    with pt(2) tl qs(3) have "lex_le (map length qt) (map length pt)" by (auto intro: Cons.IH)
    with True pt show ?thesis by (simp add: qs)
  next
    case False
    with le pt show ?thesis by (simp add: qs)
  qed
qed

lemma search_Some:
  "re_search_items as s = Some ps \<Longrightarrow>
     \<exists>i\<le>length s. match_here as (drop i s) = Some ps \<and> (\<forall>j<i. match_here as (drop j s) = None)"
proof (induction s)
  case Nil
  then show ?case by simp
next
  case (Cons c cs)
  show ?case
  proof (cases "match_here as (c # cs)")
    case (Some qs)
    with Cons.prems have "match_here as (drop 0 (c # cs)) = Some ps" by simp
    then show ?thesis by (intro exI [of _ 0]) simp
  next
    case None
    with Cons.prems have "re_search_items as cs = Some ps" by simp
    from Cons.IH [OF this] obtain i where i: "i \<le> length cs" "match_here as (drop i cs) = Some ps"
      "\<forall>j<i. match_here as (drop j cs) = None" by blast
    have "\<forall>j<Suc i. match_here as (drop j (c # cs)) = None"
    proof (intro allI impI)
      fix j assume "j < Suc i"
      then show "match_here as (drop j (c # cs)) = None"
        using None i(3) by (cases j) auto
    qed
    with i(1,2) show ?thesis by (intro exI [of _ "Suc i"]) simp
  qed
qed

lemma search_None:
  "re_search_items as s = None \<longleftrightarrow> (\<forall>i\<le>length s. match_here as (drop i s) = None)"
proof (induction s)
  case Nil
  then show ?case by simp
next
  case (Cons c cs)
  show ?case
  proof (cases "match_here as (c # cs)")
    case (Some qs)
    have "\<not> (\<forall>i\<le>length (c # cs). match_here as (drop i (c # cs)) = None)"
    proof
      assume a: "\<forall>i\<le>length (c # cs). match_here as (drop i (c # cs)) = None"
      from a [rule_format, of 0] Some show False by simp
    qed
    with Some show ?thesis by simp
  next
    case None
    have "(\<forall>i\<le>length (c # cs). match_here as (drop i (c # cs)) = None) \<longleftrightarrow>
          (\<forall>i\<le>length cs. match_here as (drop i cs) = None)"
    proof
      assume l: "\<forall>i\<le>length (c # cs). match_here as (drop i (c # cs)) = None"
      show "\<forall>i\<le>length cs. match_here as (drop i cs) = None"
      proof (intro allI impI)
        fix i assume "i \<le> length cs"
        then have "Suc i \<le> length (c # cs)" by simp
        from l [rule_format, OF this] have "match_here as (drop (Suc i) (c # cs)) = None" .
        then show "match_here as (drop i cs) = None" by simp
      qed
    next
      assume r: "\<forall>i\<le>length cs. match_here as (drop i cs) = None"
      show "\<forall>i\<le>length (c # cs). match_here as (drop i (c # cs)) = None"
      proof (intro allI impI)
        fix i assume "i \<le> length (c # cs)"
        then show "match_here as (drop i (c # cs)) = None"
          using None r by (cases i) auto
      qed
    qed
    with None Cons.IH show ?thesis by simp
  qed
qed

lemma occurs_at_match:
  "occurs_at as s i ps \<Longrightarrow> match_here as (drop i s) \<noteq> None"
proof -
  assume "occurs_at as s i ps"
  then obtain post where "list_all2 item_ok as ps" "drop i s = concat ps @ post"
    unfolding occurs_at_def by auto
  then show ?thesis by (rule match_here_complete)
qed

lemma occurs_iff: "occurs as s \<longleftrightarrow> re_search_items as s \<noteq> None"
proof
  assume "occurs as s"
  then obtain i ps where o: "occurs_at as s i ps" unfolding occurs_def by blast
  then have i: "i \<le> length s" by (simp add: occurs_at_def)
  show "re_search_items as s \<noteq> None"
  proof
    assume "re_search_items as s = None"
    then have "\<forall>i\<le>length s. match_here as (drop i s) = None" by (simp only: search_None)
    from this [rule_format, OF i] occurs_at_match [OF o] show False by contradiction
  qed
next
  assume "re_search_items as s \<noteq> None"
  then obtain ps where "re_search_items as s = Some ps" by auto
  from search_Some [OF this] obtain i where i: "i \<le> length s" "match_here as (drop i s) = Some ps"
    by auto
  from match_here_sound [OF i(2)] i(1) have "occurs_at as s i ps"
    by (simp add: occurs_at_def)
  then show "occurs as s" unfolding occurs_def by blast
qed

lemma search_selects: "re_search_items as s = Some ps \<Longrightarrow> selects as s ps"
proof -
  assume a: "re_search_items as s = Some ps"
  from search_Some [OF a] obtain i where i: "i \<le> length s" "match_here as (drop i s) = Some ps"
    "\<forall>j<i. match_here as (drop j s) = None" by blast
  from match_here_sound [OF i(2)] i(1) have at: "occurs_at as s i ps"
    by (simp add: occurs_at_def)
  have "\<forall>j qs. occurs_at as s j qs \<longrightarrow> i < j \<or> (i = j \<and> lex_le (map length qs) (map length ps))"
  proof (intro allI impI)
    fix j qs assume o: "occurs_at as s j qs"
    have ge: "i \<le> j"
    proof (rule ccontr)
      assume "\<not> i \<le> j"
      then have "j < i" by simp
      with i(3) have "match_here as (drop j s) = None" by simp
      with occurs_at_match [OF o] show False by contradiction
    qed
    show "i < j \<or> (i = j \<and> lex_le (map length qs) (map length ps))"
    proof (cases "i = j")
      case True
      from o obtain post where "list_all2 item_ok as qs" "drop i s = concat qs @ post"
        unfolding occurs_at_def True by auto
      with i(2) have "lex_le (map length qs) (map length ps)" by (rule match_here_greedy)
      with True show ?thesis by simp
    next
      case False
      with ge show ?thesis by simp
    qed
  qed
  with at show ?thesis unfolding selects_def by blast
qed

lemma lex_le_antisym: "lex_le xs ys \<Longrightarrow> lex_le ys xs \<Longrightarrow> xs = ys"
proof (induction xs arbitrary: ys)
  case Nil
  then show ?case by (cases ys) simp_all
next
  case (Cons x xs)
  then show ?case by (cases ys) auto
qed

lemma same_lengths_same_texts:
  "map length ps = map length qs \<Longrightarrow> concat ps @ r = concat qs @ r' \<Longrightarrow> ps = qs"
proof (induction ps arbitrary: qs)
  case Nil
  then show ?case by simp
next
  case (Cons p ps)
  then obtain q qt where q: "qs = q # qt" "length p = length q" "map length ps = map length qt"
    by (cases qs) auto
  from Cons.prems(2) have "p @ (concat ps @ r) = q @ (concat qt @ r')" by (simp add: q(1))
  with q(2) have "p = q" "concat ps @ r = concat qt @ r'" by auto
  with Cons.IH [OF q(3)] q(1) show ?case by simp
qed

lemma selects_unique: "selects as s ps \<Longrightarrow> selects as s qs \<Longrightarrow> ps = qs"
proof -
  assume "selects as s ps" and "selects as s qs"
  then obtain i j where i: "occurs_at as s i ps"
      "\<forall>j qs. occurs_at as s j qs \<longrightarrow> i < j \<or> (i = j \<and> lex_le (map length qs) (map length ps))"
    and j: "occurs_at as s j qs"
      "\<forall>i ps. occurs_at as s i ps \<longrightarrow> j < i \<or> (j = i \<and> lex_le (map length ps) (map length qs))"
    unfolding selects_def by blast
  from i(2) j(1) have 1: "i < j \<or> (i = j \<and> lex_le (map length qs) (map length ps))" by blast
  from j(2) i(1) have 2: "j < i \<or> (j = i \<and> lex_le (map length ps) (map length qs))" by blast
  from 1 2 have eq: "i = j" and len: "map length ps = map length qs"
    by (auto dest: lex_le_antisym)
  from i(1) j(1) obtain r r' where "drop i s = concat ps @ r" "drop i s = concat qs @ r'"
    unfolding occurs_at_def eq by blast
  then have "concat ps @ r = concat qs @ r'" by simp
  with len show ?thesis by (rule same_lengths_same_texts)
qed

lemma selects_iff: "selects as s ps \<longleftrightarrow> re_search_items as s = Some ps"
proof
  assume sel: "selects as s ps"
  then have "occurs as s" unfolding selects_def occurs_def by blast
  then obtain qs where qs: "re_search_items as s = Some qs" unfolding occurs_iff by blast
  from selects_unique [OF sel search_selects [OF qs]] qs show "re_search_items as s = Some ps"
    by simp
qed (rule search_selects)

lemma re_search_selects:
  "selects as s ps \<Longrightarrow> re_search as s = Some (group G1 as ps, group G2 as ps, group G3 as ps)"
  by (simp add: selects_iff re_search_def)

lemma re_search_absent: "\<not> occurs as s \<Longrightarrow> re_search as s = None"
  by (simp add: occurs_iff re_search_def)

lemma re_search_None_iff: "re_search as s = None \<longleftrightarrow> \<not> occurs as s"
  by (simp add: occurs_iff re_search_def)

lemma guess_decides:
  "decides U k name ps \<Longrightarrow> ymd U k ps = (y, m, d) \<Longrightarrow>
     guess_date_from_filename U name = some_date (datetime_date y m d)"
  by (cases k)
     (auto simp: decides_def guess_date_from_filename_def re_search_selects re_search_absent)

lemma some_date_not_None: "some_date r \<noteq> Inr None"
  by (cases r) (simp_all add: some_date_def)

lemma guess_None_iff:
  "guess_date_from_filename U name = Inr None \<longleftrightarrow>
     \<not> occurs (family1 U) name \<and> \<not> occurs (family2 U) name \<and> \<not> occurs (family3 U) name"
  by (auto simp: guess_date_from_filename_def re_search_None_iff [symmetric] some_date_not_None
           split: option.splits)

lemma guess_cases:
  "(\<exists>k ps. decides U k name ps) \<or>
   (\<not> occurs (family1 U) name \<and> \<not> occurs (family2 U) name \<and> \<not> occurs (family3 U) name)"
proof (cases "occurs (family1 U) name")
  case True
  then obtain ps where "selects (family1 U) name ps" unfolding occurs_iff selects_iff by blast
  then have "decides U Family1 name ps" by (simp add: decides_def)
  then show ?thesis by blast
next
  case f1: False
  show ?thesis
  proof (cases "occurs (family2 U) name")
    case True
    then obtain ps where "selects (family2 U) name ps" unfolding occurs_iff selects_iff by blast
    with f1 have "decides U Family2 name ps" by (simp add: decides_def)
    then show ?thesis by blast
  next
    case f2: False
    show ?thesis
    proof (cases "occurs (family3 U) name")
      case True
      then obtain ps where "selects (family3 U) name ps" unfolding occurs_iff selects_iff by blast
      with f1 f2 have "decides U Family3 name ps" by (simp add: decides_def)
      then show ?thesis by blast
    next
      case False
      with f1 f2 show ?thesis by simp
    qed
  qed
qed

section \<open>The date of a filename\<close>

text \<open>
  Below U+0180 nothing is read off the parameter \<open>U\<close>: on such characters and strings
  any two databases give the same.
\<close>

lemma is_digit_tabled: "tabled c \<Longrightarrow> is_digit U c = is_digit U' c"
  by (simp add: is_digit_def)

lemma py_int_tabled: "list_all tabled s \<Longrightarrow> py_int U s = py_int U' s"
proof -
  have "list_all tabled s \<Longrightarrow>
      foldl (\<lambda>n c. 10 * n + digit_value U c) a s = foldl (\<lambda>n c. 10 * n + digit_value U' c) a s"
    for a
    by (induction s arbitrary: a) (simp_all add: digit_value_def)
  then show "list_all tabled s \<Longrightarrow> py_int U s = py_int U' s" by (simp add: py_int_def)
qed

lemma py_lower_tabled: "list_all tabled s \<Longrightarrow> py_lower U s = py_lower U' s"
  by (simp add: py_lower_def)

text \<open>Definitions to unfold when the date of a given filename is evaluated.\<close>

lemmas date_eval = guess_date_from_filename_def re_search_def family1_def family2_def
  family3_def group_def is_sep_def lit_def is_digit_def digit_value_def tabled_def py_int_def
  py_def datetime_date_def some_date_def valid_date_def days_in_month_def is_leap_def upt_rec

text \<open>Two filenames evaluated, under any database: one that holds a date and, after
  it, eight digits that family 3 matches.\<close>

lemma guess_two_dates:
  "guess_date_from_filename U (py ''2025-01-19_20251399.xlsx'')
     = Inr (Some \<lparr>year = 2025, month = 1, day = 19\<rparr>)"
  by (simp add: date_eval)

lemma family3_two_dates:
  "re_search (family3 U) (py ''2025-01-19_20251399.xlsx'')
     = Some (py ''2025'', py ''13'', py ''99'')"
  by (simp add: date_eval)

lemma guess_month_13:
  "re_search (family1 U) (py ''trosak_2025-13-01.xlsx'') = Some (py ''2025'', py ''13'', py ''01'')
   \<and> guess_date_from_filename U (py ''trosak_2025-13-01.xlsx'') = Inl ValueError"
  by (simp add: date_eval)

text \<open>
  Claim C2, as stated: a filename in which a family matches digits that form no
  calendar date gets an absent date, the error being caught inside the function.
  It fails twice. In \<open>trosak_2025-13-01.xlsx\<close> family 1 matches year 2025, month 13,
  day 01, and the function raises \<open>ValueError\<close> instead of returning \<open>None\<close>. In
  \<open>2025-01-19_20251399.xlsx\<close> family 3 matches year 2025, month 13, day 99, and the
  function returns the date that family 1 finds, family 3 never being tried.
\<close>

theorem guess_date_invalid_counterexample:
  "re_search (family1 latin_only) (py ''trosak_2025-13-01.xlsx'') = Some (py ''2025'', py ''13'', py ''01'')
   \<and> \<not> valid_date 2025 13 1
   \<and> guess_date_from_filename latin_only (py ''trosak_2025-13-01.xlsx'') = Inl ValueError
   \<and> re_search (family3 latin_only) (py ''2025-01-19_20251399.xlsx'') = Some (py ''2025'', py ''13'', py ''99'')
   \<and> \<not> valid_date 2025 13 99
   \<and> guess_date_from_filename latin_only (py ''2025-01-19_20251399.xlsx'')
       = Inr (Some \<lparr>year = 2025, month = 1, day = 19\<rparr>)"
proof -
  have v: "\<not> valid_date 2025 13 1" "\<not> valid_date 2025 13 99"
    by (simp_all add: valid_date_def)
  from guess_month_13 [of latin_only] family3_two_dates [of latin_only]
    guess_two_dates [of latin_only] v
  show ?thesis by (intro conjI) (elim conjE, assumption)+
qed

text \<open>
  Claim C2, amended: when the digits of the occurrence that decides the filename (the
  first family that occurs in it, at its leftmost position, greedily) form no
  calendar date, \<open>guess_date_from_filename\<close> raises \<open>ValueError\<close> to its caller; it
  neither returns an absent date nor goes on to a later family.
\<close>

theorem guess_date_invalid_raises:
  "decides U k name ps \<Longrightarrow> ymd U k ps = (y, m, d) \<Longrightarrow> \<not> valid_date y m d \<Longrightarrow>
     guess_date_from_filename U name = Inl ValueError"
  by (simp add: guess_decides datetime_date_def some_date_def)

theorem guess_date_invalid_raises_witness:
  "decides latin_only Family2 (py ''ponuda 31.02.2024.xlsx'')
     [py ''31'', py ''.'', py ''02'', py ''.'', py ''2'', py ''0'', py ''24'']
   \<and> ymd latin_only Family2 [py ''31'', py ''.'', py ''02'', py ''.'', py ''2'', py ''0'', py ''24'']
       = (2024, 2, 31)
   \<and> \<not> valid_date 2024 2 31
   \<and> guess_date_from_filename latin_only (py ''ponuda 31.02.2024.xlsx'') = Inl ValueError"
proof -
  let ?ps = "[py ''31'', py ''.'', py ''02'', py ''.'', py ''2'', py ''0'', py ''24'']"
  have d: "decides latin_only Family2 (py ''ponuda 31.02.2024.xlsx'') ?ps"
    unfolding decides_def earlier_absent.simps pattern.simps occurs_iff selects_iff
    by (simp add: date_eval)
  have y: "ymd latin_only Family2 ?ps = (2024, 2, 31)" by (simp add: date_eval)
  have v: "\<not> valid_date 2024 2 31" by (simp add: date_eval)
  from guess_date_invalid_raises [OF d y v] d y v show ?thesis by simp
qed

text \<open>
  Claim C3, as stated, has \<open>20250119_trosak.xlsx\<close> resolved by family 1 and lets
  family 1 take any four-digit year. Both fail: family 1 does not occur in
  \<open>20250119_trosak.xlsx\<close> (family 3 does), and \<open>trosak_1999-01-19.xlsx\<close>, whose digits
  form a calendar date, gets an absent date, since the year of family 1 begins with 20
  as well.
\<close>

theorem guess_date_family1_counterexample:
  "re_search (family1 latin_only) (py ''20250119_trosak.xlsx'') = None
   \<and> re_search (family3 latin_only) (py ''20250119_trosak.xlsx'') = Some (py ''2025'', py ''01'', py ''19'')
   \<and> valid_date 1999 1 19
   \<and> guess_date_from_filename latin_only (py ''trosak_1999-01-19.xlsx'') = Inr None"
  by (simp add: date_eval)

text \<open>
  Claim C3, amended: the first of the families 1, 2, 3 that occurs in the filename
  decides, by its leftmost, greedy occurrence, the year of each family beginning
  with 20; when the digits of that occurrence form a calendar date, exactly that date
  is returned; when no family occurs the date is absent. \<open>trosak_2025-01-19.xlsx\<close> is
  decided by family 1, \<open>trosak_19.01.2025.xlsx\<close> by family 2 and
  \<open>20250119_trosak.xlsx\<close> by family 3, each giving 2025-01-19, and
  \<open>trosak_final.xlsx\<close> gives an absent date.
\<close>

theorem guess_date_first_family:
  "(decides U k name ps \<longrightarrow> ymd U k ps = (y, m, d) \<longrightarrow> valid_date y m d \<longrightarrow>
      guess_date_from_filename U name = Inr (Some \<lparr>year = y, month = m, day = d\<rparr>))
   \<and> (\<not> occurs (family1 U) name \<and> \<not> occurs (family2 U) name \<and> \<not> occurs (family3 U) name \<longrightarrow>
      guess_date_from_filename U name = Inr None)
   \<and> decides U Family1 (py ''trosak_2025-01-19.xlsx'')
        [py ''2'', py ''0'', py ''25'', py ''-'', py ''01'', py ''-'', py ''19'']
   \<and> guess_date_from_filename U (py ''trosak_2025-01-19.xlsx'')
        = Inr (Some \<lparr>year = 2025, month = 1, day = 19\<rparr>)
   \<and> decides U Family2 (py ''trosak_19.01.2025.xlsx'')
        [py ''19'', py ''.'', py ''01'', py ''.'', py ''2'', py ''0'', py ''25'']
   \<and> guess_date_from_filename U (py ''trosak_19.01.2025.xlsx'')
        = Inr (Some \<lparr>year = 2025, month = 1, day = 19\<rparr>)
   \<and> decides U Family3 (py ''20250119_trosak.xlsx'')
        [py ''2'', py ''0'', py ''25'', py ''01'', py ''19'']
   \<and> guess_date_from_filename U (py ''20250119_trosak.xlsx'')
        = Inr (Some \<lparr>year = 2025, month = 1, day = 19\<rparr>)
   \<and> guess_date_from_filename U (py ''trosak_final.xlsx'') = Inr None"
proof (intro conjI impI)
  assume "decides U k name ps" "ymd U k ps = (y, m, d)" "valid_date y m d"
  then show "guess_date_from_filename U name = Inr (Some \<lparr>year = y, month = m, day = d\<rparr>)"
    by (simp add: guess_decides datetime_date_def some_date_def)
next
  assume "\<not> occurs (family1 U) name \<and> \<not> occurs (family2 U) name \<and> \<not> occurs (family3 U) name"
  then show "guess_date_from_filename U name = Inr None" by (simp add: guess_None_iff)
next
  show "decides U Family1 (py ''trosak_2025-01-19.xlsx'')
        [py ''2'', py ''0'', py ''25'', py ''-'', py ''01'', py ''-'', py ''19'']"
    unfolding decides_def earlier_absent.simps pattern.simps occurs_iff selects_iff
    by (simp add: date_eval)
next
  show "decides U Family2 (py ''trosak_19.01.2025.xlsx'')
        [py ''19'', py ''.'', py ''01'', py ''.'', py ''2'', py ''0'', py ''25'']"
    unfolding decides_def earlier_absent.simps pattern.simps occurs_iff selects_iff
    by (simp add: date_eval)
next
  show "decides U Family3 (py ''20250119_trosak.xlsx'')
        [py ''2'', py ''0'', py ''25'', py ''01'', py ''19'']"
    unfolding decides_def earlier_absent.simps pattern.simps occurs_iff selects_iff
    by (simp add: date_eval)
qed (simp_all add: date_eval)

theorem guess_date_first_family_witness:
  "decides latin_only Family1 (py ''2024_3_7 stavke.xlsx'')
     [py ''2'', py ''0'', py ''24'', py ''_'', py ''3'', py ''_'', py ''7'']
   \<and> ymd latin_only Family1 [py ''2'', py ''0'', py ''24'', py ''_'', py ''3'', py ''_'', py ''7'']
       = (2024, 3, 7)
   \<and> valid_date 2024 3 7
   \<and> guess_date_from_filename latin_only (py ''2024_3_7 stavke.xlsx'')
       = Inr (Some \<lparr>year = 2024, month = 3, day = 7\<rparr>)
   \<and> \<not> occurs (family1 latin_only) (py ''ponuda.xlsx'') \<and> \<not> occurs (family2 latin_only) (py ''ponuda.xlsx'')
   \<and> \<not> occurs (family3 latin_only) (py ''ponuda.xlsx'')
   \<and> guess_date_from_filename latin_only (py ''ponuda.xlsx'') = Inr None"
proof -
  let ?ps = "[py ''2'', py ''0'', py ''24'', py ''_'', py ''3'', py ''_'', py ''7'']"
  have d: "decides latin_only Family1 (py ''2024_3_7 stavke.xlsx'') ?ps"
    unfolding decides_def earlier_absent.simps pattern.simps occurs_iff selects_iff
    by (simp add: date_eval)
  have y: "ymd latin_only Family1 ?ps = (2024, 3, 7)" by (simp add: date_eval)
  have v: "valid_date 2024 3 7" by (simp add: date_eval)
  have n: "\<not> occurs (family1 latin_only) (py ''ponuda.xlsx'') \<and> \<not> occurs (family2 latin_only) (py ''ponuda.xlsx'')
           \<and> \<not> occurs (family3 latin_only) (py ''ponuda.xlsx'')"
    unfolding occurs_iff by (simp add: date_eval)
  from guess_date_first_family [of latin_only Family1 "py ''2024_3_7 stavke.xlsx''" ?ps 2024 3 7]
    guess_date_first_family [of latin_only _ "py ''ponuda.xlsx''"] d y v n
  show ?thesis by simp
qed

section \<open>Column roles\<close>






















text \<open>Definitions to unfold when a function is evaluated on given strings.\<close>

lemmas str_eval = py_def lit_def py_isspace_def py_strip_def lower_char_def py_lower_def
  tabled_def endswith_def

lemmas opt_eval = desc_options_def unit_options_def qty_options_def up_options_def
  tot_options_def header_labels_def

lemmas table_eval = normalize_table_def find_col_def series_def role_column_def Let_def




section \<open>The rows of a normalised table\<close>

text \<open>
  What the two row filters establish: the description of a retained row is not blank,
  and lowered, as it stands, it is none of the header labels.
\<close>

lemma normalize_rows_kept:
  "normalize_table U S N df source sh = Inr (Frame rs) \<Longrightarrow> r \<in> set rs \<Longrightarrow>
     py_strip (opis r) \<noteq> [] \<and> py_lower U (opis r) \<notin> set header_labels"
  by (auto simp: normalize_table_def Let_def split: option.splits sum.splits)

lemma guess_a_xlsx: "guess_date_from_filename U (py ''a.xlsx'') = Inr None"
  by (simp add: date_eval)

text \<open>
  Claim C4 asks more of the second filter: that the trimmed description is none of
  the header labels, also for a description with whitespace around the label. The
  filter compares the lowered description without trimming it, so the repeated
  header row of \<open>padded_table\<close>, whose description is the label \<open>Opis\<close> between two blanks,
  is retained, though trimmed and lowered it is \<open>opis\<close>.
\<close>

theorem normalize_keeps_padded_header:
  "normalize_table U (\<lambda>s. s) text_to_numeric padded_table (py ''a.xlsx'') (py ''List1'') =
     Inr (Frame
       [\<lparr>opis = py '' Opis '', jm = py '' JM '', kolicina = None, jed_cijena = None,
         iznos = None, source_file = py ''a.xlsx'', sheet = py ''List1'', datum = None\<rparr>,
        \<lparr>opis = py ''Beton C25/30'', jm = py ''m3'', kolicina = None, jed_cijena = None,
         iznos = None, source_file = py ''a.xlsx'', sheet = py ''List1'', datum = None\<rparr>,
        \<lparr>opis = py ''Opeka'', jm = py ''kom'', kolicina = None, jed_cijena = None,
         iznos = None, source_file = py ''a.xlsx'', sheet = py ''List1'', datum = None\<rparr>])
   \<and> py_lower U (py_strip (py '' Opis '')) = py ''opis''"
proof -
  have g: "guess_date_from_filename U [97, 46, 120, 108, 115, 120] = Inr None"
    using guess_a_xlsx by (simp add: py_def)
  show ?thesis
    by (simp add: table_eval padded_table_def opt_eval str_eval g)
qed

text \<open>
  Claim C6, as stated: the sheet with one data row and one repeated header row yields
  exactly one row. It fails for the sheet as \<open>read_xlsx_bytes\<close> treats it: its table
  has two rows, fewer than three, so the sheet is skipped and the document has no row.
\<close>

theorem scenario_sheet_skipped:
  "nrows scenario_table = 2
   \<and> read_xlsx_bytes latin_only (\<lambda>s. s) text_to_numeric
        (Workbook [(py ''List1'', Parsed scenario_table)]) (py ''trosak.xlsx'') = Inr NoColumns"
  by (simp add: scenario_table_def read_xlsx_bytes_def)

text \<open>
  Claim C6, amended: \<open>normalize_table\<close>, applied to the table of that sheet under a
  filename whose date can be guessed, yields exactly one row, the repeated header row
  being dropped, with \<open>jm\<close> m3 and, \<open>pd.to_numeric\<close> reading the three texts as the
  numbers they write, \<open>kolicina\<close> 2, \<open>jed_cijena\<close> 100 and \<open>iznos\<close> 200; the loop over the
  sheets skips the sheet, which has fewer than three rows.
\<close>

theorem scenario_normalized:
  fixes to_numeric :: "pystr \<Rightarrow> int option"
  assumes "to_numeric (py ''2'') = Some 2"
    and "to_numeric (py ''100'') = Some 100"
    and "to_numeric (py ''200'') = Some 200"
    and "guess_date_from_filename U source = Inr dat"
  shows "normalize_table U (\<lambda>s. s) to_numeric scenario_table source sh =
       Inr (Frame
         [\<lparr>opis = py ''Beton'', jm = py ''m3'', kolicina = Some 2, jed_cijena = Some 100,
           iznos = Some 200, source_file = source, sheet = sh, datum = dat\<rparr>])
     \<and> read_sheets U (\<lambda>s. s) to_numeric source [(sh, Parsed scenario_table)] = []"
  using assms by (simp add: table_eval scenario_table_def opt_eval str_eval)

theorem scenario_normalized_witness:
  "text_to_numeric (py ''2'') = Some 2 \<and> text_to_numeric (py ''100'') = Some 100
   \<and> text_to_numeric (py ''200'') = Some 200
   \<and> guess_date_from_filename latin_only (py ''a.xlsx'') = Inr None
   \<and> normalize_table latin_only (\<lambda>s. s) text_to_numeric scenario_table (py ''a.xlsx'') (py ''List1'') =
       Inr (Frame
         [\<lparr>opis = py ''Beton'', jm = py ''m3'', kolicina = Some 2, jed_cijena = Some 100,
           iznos = Some 200, source_file = py ''a.xlsx'', sheet = py ''List1'',
           datum = None\<rparr>])
   \<and> read_sheets latin_only (\<lambda>s. s) text_to_numeric (py ''a.xlsx'') [(py ''List1'', Parsed scenario_table)]
       = []"
proof -
  have n: "text_to_numeric (py ''2'') = Some 2" "text_to_numeric (py ''100'') = Some 100"
    "text_to_numeric (py ''200'') = Some 200"
    by (simp_all add: text_to_numeric_def str_eval)
  from scenario_normalized [OF n guess_a_xlsx [of latin_only]] n guess_a_xlsx [of latin_only]
  show ?thesis by simp
qed

section \<open>The sheets of a document\<close>

lemma read_sheets_append:
  "read_sheets U S N fn (xs @ ys) = read_sheets U S N fn xs @ read_sheets U S N fn ys"
proof (induction xs)
  case Nil
  then show ?case by simp
next
  case (Cons x xs)
  obtain sh p where x: "x = (sh, p)" by (cases x)
  show ?case
  proof (cases p)
    case ParseFails
    with Cons.IH x show ?thesis by simp
  next
    case (Parsed raw)
    with Cons.IH x show ?thesis by (simp split: sum.splits)
  qed
qed

lemma read_sheets_skip:
  "read_sheets U S N fn [(sh, p)] = [] \<Longrightarrow>
     read_sheets U S N fn (pre @ (sh, p) # post) = read_sheets U S N fn (pre @ post)"
proof -
  assume a: "read_sheets U S N fn [(sh, p)] = []"
  have "read_sheets U S N fn (pre @ [(sh, p)] @ post) = read_sheets U S N fn (pre @ post)"
    by (simp only: read_sheets_append a append_Nil)
  then show ?thesis by simp
qed




lemma short_sheet_nothing: "nrows raw < 3 \<Longrightarrow> read_sheets U S N fn [(sh, Parsed raw)] = []"
  by simp


lemma read_xlsx_skip:
  "read_sheets U S N fn [(sh, p)] = [] \<Longrightarrow>
     read_xlsx_bytes U S N (Workbook (pre @ (sh, p) # post)) fn
       = read_xlsx_bytes U S N (Workbook (pre @ post)) fn"
  by (simp add: read_xlsx_bytes_def read_sheets_skip)

text \<open>
  Claim C7: a sheet whose parsed table has fewer than three rows is skipped. The
  frames of the document, and so what \<open>read_xlsx_bytes\<close> returns, are those of the
  document without the sheet; the row set of the sheet is empty; a document of that
  sheet alone, such as one of two data rows, gives the frame without rows.
\<close>

theorem short_sheet_skipped:
  assumes "nrows raw < 3"
  shows "read_sheets U S N fn (pre @ (sh, Parsed raw) # post) = read_sheets U S N fn (pre @ post)
     \<and> read_xlsx_bytes U S N (Workbook (pre @ (sh, Parsed raw) # post)) fn
         = read_xlsx_bytes U S N (Workbook (pre @ post)) fn
     \<and> sheet_rows U S N fn (sh, Parsed raw) = []
     \<and> read_xlsx_bytes U S N (Workbook [(sh, Parsed raw)]) fn = Inr NoColumns"
proof (intro conjI)
  from assms have n: "read_sheets U S N fn [(sh, Parsed raw)] = []" by (rule short_sheet_nothing)
  from n show "read_sheets U S N fn (pre @ (sh, Parsed raw) # post) = read_sheets U S N fn (pre @ post)"
    by (rule read_sheets_skip)
  from n show "read_xlsx_bytes U S N (Workbook (pre @ (sh, Parsed raw) # post)) fn
         = read_xlsx_bytes U S N (Workbook (pre @ post)) fn"
    by (rule read_xlsx_skip)
  from assms show "sheet_rows U S N fn (sh, Parsed raw) = []" by (simp add: sheet_rows_def)
  from n show "read_xlsx_bytes U S N (Workbook [(sh, Parsed raw)]) fn = Inr NoColumns"
    by (simp add: read_xlsx_bytes_def)
qed

theorem short_sheet_skipped_witness:
  "nrows scenario_table < 3
   \<and> read_sheets latin_only (\<lambda>s. s) text_to_numeric (py ''a.xlsx'')
        ([(py ''List1'', Parsed padded_table)] @ (py ''List2'', Parsed scenario_table)
           # [(py ''List3'', Parsed padded_table)])
       = read_sheets latin_only (\<lambda>s. s) text_to_numeric (py ''a.xlsx'')
        ([(py ''List1'', Parsed padded_table)] @ [(py ''List3'', Parsed padded_table)])
   \<and> sheet_rows latin_only (\<lambda>s. s) text_to_numeric (py ''a.xlsx'') (py ''List2'', Parsed scenario_table) = []
   \<and> read_xlsx_bytes latin_only (\<lambda>s. s) text_to_numeric
        (Workbook [(py ''List2'', Parsed scenario_table)]) (py ''a.xlsx'') = Inr NoColumns"
proof -
  have h: "nrows scenario_table < 3" by (simp add: scenario_table_def)
  from short_sheet_skipped [OF h, of latin_only "\<lambda>s. s" text_to_numeric "py ''a.xlsx''"
      "[(py ''List1'', Parsed padded_table)]" "py ''List2''" "[(py ''List3'', Parsed padded_table)]"]
    h show ?thesis by blast
qed

section \<open>The entries of an archive\<close>





lemma z_read_member: "z_read z n = Some b \<Longrightarrow> (n, b) \<in> set z"
  by (induction z) (auto split: option.splits if_splits)















section \<open>A filename with an impossible date\<close>

lemma normalize_date_error:
  "guess_date_from_filename U fn = Inl e \<Longrightarrow>
     normalize_table U S N raw fn sh = Inr NoColumns \<or> isl (normalize_table U S N raw fn sh)"
  by (auto simp: normalize_table_def Let_def split: option.splits sum.splits)

lemma read_sheets_date_error:
  "guess_date_from_filename U fn = Inl e \<Longrightarrow>
     list_all (\<lambda>f. f = NoColumns) (read_sheets U S N fn sheets)"
proof (induction sheets)
  case Nil
  then show ?case by simp
next
  case (Cons x xs)
  obtain sh p where x: "x = (sh, p)" by (cases x)
  show ?case
  proof (cases p)
    case ParseFails
    with Cons x show ?thesis by simp
  next
    case (Parsed raw)
    from normalize_date_error [OF Cons.prems, of S N raw sh] Cons x Parsed show ?thesis
      by (auto simp: isl_def)
  qed
qed

lemma sheet_rows_date_error:
  "guess_date_from_filename U fn = Inl e \<Longrightarrow> sheet_rows U S N fn s = []"
proof -
  assume a: "guess_date_from_filename U fn = Inl e"
  obtain sh p where s: "s = (sh, p)" by (cases s)
  show ?thesis
  proof (cases p)
    case ParseFails
    with s show ?thesis by (simp add: sheet_rows_def)
  next
    case (Parsed raw)
    from normalize_date_error [OF a, of S N raw sh] s Parsed show ?thesis
      by (auto simp: sheet_rows_def isl_def)
  qed
qed

section \<open>Failures and what they cost\<close>













text \<open>
  Claim C10, as stated, speaks of every filename that contains digits which match one
  of the families and form no calendar date. It fails where an earlier family decides:
  in \<open>2025-01-19_20251399.xlsx\<close> family 3 matches year 2025, month 13, day 99, yet the
  date is taken from family 1, nothing raises, and the sheet keeps its three rows.
\<close>

theorem later_family_invalid_keeps_rows:
  "re_search (family3 latin_only) (py ''2025-01-19_20251399.xlsx'') = Some (py ''2025'', py ''13'', py ''99'')
   \<and> \<not> valid_date 2025 13 99
   \<and> read_xlsx_bytes latin_only (\<lambda>s. s) text_to_numeric (Workbook [(py ''List1'', Parsed padded_table)])
        (py ''2025-01-19_20251399.xlsx'') =
     Inr (Frame
       [\<lparr>opis = py '' Opis '', jm = py '' JM '', kolicina = None, jed_cijena = None,
         iznos = None, source_file = py ''2025-01-19_20251399.xlsx'', sheet = py ''List1'',
         datum = Some \<lparr>year = 2025, month = 1, day = 19\<rparr>\<rparr>,
        \<lparr>opis = py ''Beton C25/30'', jm = py ''m3'', kolicina = None, jed_cijena = None,
         iznos = None, source_file = py ''2025-01-19_20251399.xlsx'', sheet = py ''List1'',
         datum = Some \<lparr>year = 2025, month = 1, day = 19\<rparr>\<rparr>,
        \<lparr>opis = py ''Opeka'', jm = py ''kom'', kolicina = None, jed_cijena = None,
         iznos = None, source_file = py ''2025-01-19_20251399.xlsx'', sheet = py ''List1'',
         datum = Some \<lparr>year = 2025, month = 1, day = 19\<rparr>\<rparr>])"
proof -
  have g: "guess_date_from_filename latin_only
      [50, 48, 50, 53, 45, 48, 49, 45, 49, 57, 95, 50, 48, 50, 53, 49, 51, 57, 57, 46, 120, 108,
       115, 120] = Inr (Some \<lparr>year = 2025, month = 1, day = 19\<rparr>)"
    using guess_two_dates [of latin_only] by (simp add: py_def)
  have v: "\<not> valid_date 2025 13 99" by (simp add: valid_date_def)
  have r: "read_xlsx_bytes latin_only (\<lambda>s. s) text_to_numeric (Workbook [(py ''List1'', Parsed padded_table)])
        (py ''2025-01-19_20251399.xlsx'') =
     Inr (Frame
       [\<lparr>opis = py '' Opis '', jm = py '' JM '', kolicina = None, jed_cijena = None,
         iznos = None, source_file = py ''2025-01-19_20251399.xlsx'', sheet = py ''List1'',
         datum = Some \<lparr>year = 2025, month = 1, day = 19\<rparr>\<rparr>,
        \<lparr>opis = py ''Beton C25/30'', jm = py ''m3'', kolicina = None, jed_cijena = None,
         iznos = None, source_file = py ''2025-01-19_20251399.xlsx'', sheet = py ''List1'',
         datum = Some \<lparr>year = 2025, month = 1, day = 19\<rparr>\<rparr>,
        \<lparr>opis = py ''Opeka'', jm = py ''kom'', kolicina = None, jed_cijena = None,
         iznos = None, source_file = py ''2025-01-19_20251399.xlsx'', sheet = py ''List1'',
         datum = Some \<lparr>year = 2025, month = 1, day = 19\<rparr>\<rparr>])"
    by (simp add: read_xlsx_bytes_def concat_frames_def table_eval padded_table_def opt_eval
        str_eval g)
  from family3_two_dates [of latin_only] v r show ?thesis by (intro conjI)
qed

text \<open>
  Claim C10, amended: when the digits of the occurrence that decides the filename (the
  first family that occurs in it, at its leftmost position, greedily) form no calendar
  date, the document yields no row: the frame of the document has none, the row set of
  every sheet is empty, and no table is normalised to a frame with rows, since the
  normalisation that reaches the date raises and the loop drops the sheet.
\<close>

theorem invalid_date_drops_all_sheets:
  assumes "decides U k filename ps" and "ymd U k ps = (y, m, d)" and "\<not> valid_date y m d"
  shows "read_xlsx_bytes U S N (Workbook sheets) filename = Inr NoColumns
     \<and> (\<forall>s\<in>set sheets. sheet_rows U S N filename s = [])
     \<and> (\<forall>sh raw f. normalize_table U S N raw filename sh = Inr f \<longrightarrow> f = NoColumns)"
proof -
  from assms have g: "guess_date_from_filename U filename = Inl ValueError"
    by (simp add: guess_decides datetime_date_def some_date_def)
  from read_sheets_date_error [OF g, of S N sheets]
  have "read_xlsx_bytes U S N (Workbook sheets) filename = Inr NoColumns"
    by (simp add: read_xlsx_bytes_def concat_frames_def Let_def)
  moreover have "\<forall>s\<in>set sheets. sheet_rows U S N filename s = []"
  proof
    fix s assume "s \<in> set sheets"
    show "sheet_rows U S N filename s = []" using g by (rule sheet_rows_date_error)
  qed
  moreover have "\<forall>sh raw f. normalize_table U S N raw filename sh = Inr f \<longrightarrow> f = NoColumns"
  proof (intro allI impI)
    fix sh raw f assume a: "normalize_table U S N raw filename sh = Inr f"
    from normalize_date_error [OF g, of S N raw sh] a show "f = NoColumns" by auto
  qed
  ultimately show ?thesis by simp
qed

theorem invalid_date_drops_all_sheets_witness:
  "decides latin_only Family1 (py ''trosak_2025-13-01.xlsx'')
     [py ''2'', py ''0'', py ''25'', py ''-'', py ''13'', py ''-'', py ''01'']
   \<and> ymd latin_only Family1 [py ''2'', py ''0'', py ''25'', py ''-'', py ''13'', py ''-'', py ''01'']
       = (2025, 13, 1)
   \<and> \<not> valid_date 2025 13 1
   \<and> read_xlsx_bytes latin_only (\<lambda>s. s) text_to_numeric (Workbook [(py ''List1'', Parsed padded_table)])
        (py ''trosak_2025-13-01.xlsx'') = Inr NoColumns
   \<and> sheet_rows latin_only (\<lambda>s. s) text_to_numeric (py ''trosak_2025-13-01.xlsx'')
        (py ''List1'', Parsed padded_table) = []"
proof -
  let ?ps = "[py ''2'', py ''0'', py ''25'', py ''-'', py ''13'', py ''-'', py ''01'']"
  have d: "decides latin_only Family1 (py ''trosak_2025-13-01.xlsx'') ?ps"
    unfolding decides_def earlier_absent.simps pattern.simps occurs_iff selects_iff
    by (simp add: date_eval)
  have y: "ymd latin_only Family1 ?ps = (2025, 13, 1)" by (simp add: date_eval)
  have v: "\<not> valid_date 2025 13 1" by (simp add: date_eval)
  from invalid_date_drops_all_sheets [OF d y v, of "\<lambda>s. s" text_to_numeric
      "[(py ''List1'', Parsed padded_table)]"] d y v
  show ?thesis by simp
qed




end
